theory Spec2Isabelle
  imports Complex_Main
begin

section \<open>Round dispatch of the incident generator\<close>

text \<open>
  The generation loop of \<open>main\<close> (src/incident_generator.py, lines 669-714) works in
  rounds. A round first submits batch jobs to the thread pool (lines 674-697) and then
  collects their results (lines 700-713). A submitted job is the argument pair of
  \<open>generate_incident_batch\<close>: the requested size \<open>current_batch_size\<close> and the starting
  offset \<open>batch_start_count\<close>. Python integers are unbounded, hence \<open>int\<close>.
\<close>

datatype error =
    ZeroDivisionError
  | ValueError string
  | TypeError
  | AttributeError
  | JSONDecodeError
  | BackendError

type_synonym job = "int \<times> int"

text \<open>
  The body of \<open>for i in range(...)\<close>, lines 678-697, over the remaining indices of the
  range. \<open>L\<close> is \<open>len(all_incidents)\<close>, which no statement of the submission loop changes.
  Both \<open>break\<close> statements end the submission.
\<close>

fun submit_batches :: "int \<Rightarrow> int \<Rightarrow> int \<Rightarrow> int list \<Rightarrow> job list" where
  "submit_batches B T L [] = []"
| "submit_batches B T L (i # rest) =
     (if L + i * B \<ge> T then []
      else let current_batch_size = min B (T - L - i * B) in
        if current_batch_size \<le> 0 then []
        else (current_batch_size, L + i * B) # submit_batches B T L rest)"

text \<open>
  Lines 674-697. \<open>//\<close> is floor division, which is \<open>div\<close> on \<open>int\<close>, and raises
  \<open>ZeroDivisionError\<close> for a zero batch size. \<open>range(n)\<close> is \<open>[0..n - 1]\<close>, empty for
  \<open>n \<le> 0\<close>.
\<close>

definition dispatch_round :: "int \<Rightarrow> int \<Rightarrow> int \<Rightarrow> int \<Rightarrow> error + job list" where
  "dispatch_round B W T L =
     (let remaining = T - L in
      if B = 0 then Inl ZeroDivisionError
      else Inr (submit_batches B T L [0 .. min W ((remaining + B - 1) div B) - 1]))"


section \<open>Text, JSON values and the response parser\<close>

text \<open>
  A Python \<open>str\<close> is a sequence of Unicode code points, modelled as a list of their
  numbers. \<open>isspace\<close> is the whitespace that \<open>str.strip()\<close> removes.
\<close>

type_synonym pystr = "nat list"

definition nl :: nat where
  "nl = 10"

definition fence :: pystr where
  "fence = [96, 96, 96]"

definition isspace :: "nat \<Rightarrow> bool" where
  "isspace c \<longleftrightarrow>
     (9 \<le> c \<and> c \<le> 13) \<or> (28 \<le> c \<and> c \<le> 32) \<or> c = 133 \<or> c = 160 \<or> c = 5760 \<or>
     (8192 \<le> c \<and> c \<le> 8202) \<or> c = 8232 \<or> c = 8233 \<or> c = 8239 \<or> c = 8287 \<or> c = 12288"

definition lstrip :: "pystr \<Rightarrow> pystr" where
  "lstrip s = dropWhile isspace s"

definition rstrip :: "pystr \<Rightarrow> pystr" where
  "rstrip s = rev (dropWhile isspace (rev s))"

definition strip :: "pystr \<Rightarrow> pystr" where
  "strip s = rstrip (lstrip s)"

definition startswith :: "pystr \<Rightarrow> pystr \<Rightarrow> bool" where
  "startswith s p \<longleftrightarrow> take (length p) s = p"

text \<open>\<open>s.split("\n")\<close>: the pieces between line feeds; one piece for a text without any.\<close>

fun split_nl :: "pystr \<Rightarrow> pystr list" where
  "split_nl [] = [[]]"
| "split_nl (c # cs) =
     (if c = nl then [] # split_nl cs
      else (case split_nl cs of [] \<Rightarrow> [[c]] | l # ls \<Rightarrow> (c # l) # ls))"

text \<open>\<open>"\n".join(lines)\<close>.\<close>

fun join_nl :: "pystr list \<Rightarrow> pystr" where
  "join_nl [] = []"
| "join_nl [l] = l"
| "join_nl (l # l' # ls) = l @ nl # join_nl (l' # ls)"

text \<open>
  What \<open>json.loads\<close> and \<open>json.load\<close> return. An object is a \<open>dict\<close>, kept as its items
  in insertion order (the keys are distinct). The parameter \<open>'f\<close> is Python's \<open>float\<close>,
  which nothing here looks into.
\<close>

datatype 'f json =
    JNull
  | JBool bool
  | JInt int
  | JFloat 'f
  | JStr pystr
  | JArray "'f json list"
  | JObject "(pystr \<times> 'f json) list"

text \<open>\<open>len(x)\<close>: defined on strings, lists and dicts, a \<open>TypeError\<close> on the other values.\<close>

fun py_len :: "'f json \<Rightarrow> error + int" where
  "py_len (JStr s) = Inr (int (length s))"
| "py_len (JArray xs) = Inr (int (length xs))"
| "py_len (JObject kvs) = Inr (int (length kvs))"
| "py_len JNull = Inl TypeError"
| "py_len (JBool b) = Inl TypeError"
| "py_len (JInt i) = Inl TypeError"
| "py_len (JFloat x) = Inl TypeError"

text \<open>\<open>x.extend(batch)\<close>: only a list has the method.\<close>

fun py_extend :: "'f json \<Rightarrow> 'f json list \<Rightarrow> error + 'f json" where
  "py_extend (JArray xs) batch = Inr (JArray (xs @ batch))"
| "py_extend JNull batch = Inl AttributeError"
| "py_extend (JBool b) batch = Inl AttributeError"
| "py_extend (JInt i) batch = Inl AttributeError"
| "py_extend (JFloat x) batch = Inl AttributeError"
| "py_extend (JStr s) batch = Inl AttributeError"
| "py_extend (JObject kvs) batch = Inl AttributeError"

text \<open>
  Lines 452-467 of \<open>generate_incident_batch\<close>: the response is stripped; if it starts with
  a code fence, every line that starts with one is dropped and the rest is joined and
  stripped again.
\<close>

definition clean_content :: "pystr \<Rightarrow> pystr" where
  "clean_content raw =
     (let content = strip raw in
      if startswith content fence
      then strip (join_nl (filter (\<lambda>l. \<not> startswith l fence) (split_nl content)))
      else content)"

text \<open>
  Lines 452-485. The decoder \<open>json.loads\<close> is a library function and a parameter here:
  it returns the decoded value or raises. A decoded value that is not a list raises the
  \<open>ValueError\<close> of line 475.
\<close>

definition parse_response :: "(pystr \<Rightarrow> error + 'f json) \<Rightarrow> pystr \<Rightarrow> error + 'f json list" where
  "parse_response json_loads raw =
     (case json_loads (clean_content raw) of
        Inl e \<Rightarrow> Inl e
      | Inr incidents \<Rightarrow>
          (case incidents of
             JArray xs \<Rightarrow> Inr xs
           | _ \<Rightarrow> Inl (ValueError ''LLM response is not a JSON array'')))"

text \<open>
  \<open>generate_incident_batch\<close>, lines 377-491. The request to the language model (lines
  389-449) is the parameter \<open>call_llm\<close>: the text of the response to the request for
  \<open>num_incidents\<close> records after \<open>existing_count\<close> in round \<open>r\<close>, or the exception
  of the client. The handler of lines 487-491 logs and raises the exception again.
\<close>

definition generate_incident_batch ::
  "(pystr \<Rightarrow> error + 'f json) \<Rightarrow> (nat \<Rightarrow> int \<Rightarrow> int \<Rightarrow> error + pystr) \<Rightarrow>
   nat \<Rightarrow> int \<Rightarrow> int \<Rightarrow> error + 'f json list" where
  "generate_incident_batch json_loads call_llm r num_incidents existing_count =
     (case call_llm r num_incidents existing_count of
        Inl e \<Rightarrow> Inl e
      | Inr content \<Rightarrow> parse_response json_loads content)"

section \<open>The checkpoint file\<close>

text \<open>
  The file system maps a path to the text of the file. Writing can fail when the file is
  opened (the file stays as it is) or later (the file was truncated by \<open>open(..., 'w')\<close>
  and holds the part written so far).
\<close>

type_synonym files = "string \<rightharpoonup> pystr"

datatype io = IoOk | OpenFails | WriteFails nat

definition TEMP_FILE :: string where
  "TEMP_FILE = ''temp_incidents.json''"

text \<open>
  \<open>load_existing_incidents\<close>, lines 496-512. \<open>readable\<close> says whether opening and
  reading the file succeeds. Line 507 takes \<open>len(incidents)\<close> inside the \<open>try\<close>.
\<close>

definition load_existing_incidents ::
  "(pystr \<Rightarrow> error + 'f json) \<Rightarrow> bool \<Rightarrow> files \<Rightarrow> 'f json" where
  "load_existing_incidents json_loads readable fs =
     (case fs TEMP_FILE of
        None \<Rightarrow> JArray []
      | Some text \<Rightarrow>
          if \<not> readable then JArray []
          else (case json_loads text of
                  Inl e \<Rightarrow> JArray []
                | Inr incidents \<Rightarrow>
                    (case py_len incidents of
                       Inl e \<Rightarrow> JArray []
                     | Inr n \<Rightarrow> incidents)))"

text \<open>
  \<open>save_incidents_to_temp\<close>, lines 515-527. \<open>json_dump\<close> is the text that
  \<open>json.dump(incidents, f, indent=2, ensure_ascii=False)\<close> writes. Every exception is
  caught and reported, so the function always returns.
\<close>

definition save_incidents_to_temp :: "('f json \<Rightarrow> pystr) \<Rightarrow> io \<Rightarrow> 'f json \<Rightarrow> files \<Rightarrow> files" where
  "save_incidents_to_temp json_dump outcome incidents fs =
     (case outcome of
        IoOk \<Rightarrow> fs(TEMP_FILE \<mapsto> json_dump incidents)
      | OpenFails \<Rightarrow> fs
      | WriteFails n \<Rightarrow> fs(TEMP_FILE \<mapsto> take n (json_dump incidents)))"

section \<open>The generation loop\<close>

text \<open>
  The world outside the program during one run: the JSON library, the outcome of each
  write of the checkpoint, the time at which each job of a round finishes, and the user's
  interruption. \<open>write_outcome r k\<close> is the outcome of the save after the \<open>k\<close>-th
  completed job of round \<open>r\<close>; \<open>interrupt r k\<close> says that \<open>KeyboardInterrupt\<close> arrives in
  round \<open>r\<close> at that job, and \<open>interrupt_point r k\<close> where: while the main thread waits
  for the job (or handles its failure), after \<open>extend\<close> (line 703) and before the file is
  opened, during the save when \<open>n\<close> characters of the dump are written, or after the
  save. \<open>KeyboardInterrupt\<close> is no \<open>Exception\<close>: neither line 526 nor line 710 catches
  it. The jobs of a round are told apart by their arguments.
\<close>

datatype interruption = WhileWaiting | AfterExtend | DuringSave nat | AfterSave

record 'f world =
  json_dump :: "'f json \<Rightarrow> pystr"
  json_loads :: "pystr \<Rightarrow> error + 'f json"
  write_outcome :: "nat \<Rightarrow> nat \<Rightarrow> io"
  finish_time :: "nat \<Rightarrow> int \<Rightarrow> int \<Rightarrow> nat"
  interrupt :: "nat \<Rightarrow> nat \<Rightarrow> bool"
  interrupt_point :: "nat \<Rightarrow> nat \<Rightarrow> interruption"

text \<open>
  The state of \<open>main\<close>: the collection \<open>all_incidents\<close>, the files, and the calls of
  \<open>executor.submit\<close> so far, one list for each round.
\<close>

record 'f state =
  all_incidents :: "'f json"
  files :: files
  submitted :: "job list list"

datatype 'f outcome =
    Completed "'f state"
  | Interrupted "'f state"
  | Failed error "'f state"

text \<open>\<open>as_completed(futures)\<close>: the jobs of the round in the order in which they finish.\<close>

definition as_completed :: "'f world \<Rightarrow> nat \<Rightarrow> job list \<Rightarrow> job list" where
  "as_completed env r futures = sort_key (\<lambda>future. finish_time env r (fst future) (snd future)) futures"

text \<open>
  Lines 701-713, the body of the collecting loop for one completed job. \<open>run_job\<close> is
  what the submitted function does: \<open>future.result()\<close> returns the batch or raises. An
  exception of \<open>future.result()\<close> or of \<open>extend\<close> is caught at line 710 and the
  state stays as it is.
\<close>

definition collect_result ::
  "'f world \<Rightarrow> (nat \<Rightarrow> int \<Rightarrow> int \<Rightarrow> error + 'f json list) \<Rightarrow> nat \<Rightarrow> nat \<Rightarrow> 'f state \<Rightarrow> job \<Rightarrow> 'f state" where
  "collect_result env run_job r k st future =
     (case run_job r (fst future) (snd future) of
        Inl e \<Rightarrow> st
      | Inr batch \<Rightarrow>
          (case py_extend (all_incidents st) batch of
             Inl e \<Rightarrow> st
           | Inr incidents \<Rightarrow>
               st\<lparr>all_incidents := incidents,
                  files := save_incidents_to_temp (json_dump env) (write_outcome env r k) incidents (files st)\<rparr>))"

text \<open>
  The same lines when \<open>KeyboardInterrupt\<close> arrives at the job: the state in which the
  exception leaves the loop. After \<open>extend\<close> the batch is in the collection and the file is
  as before; during the save the file was truncated by \<open>open(..., 'w')\<close> and holds the
  part of the dump written so far. Where the job or \<open>extend\<close> raises, nothing has changed.
\<close>

definition interrupted_result ::
  "'f world \<Rightarrow> (nat \<Rightarrow> int \<Rightarrow> int \<Rightarrow> error + 'f json list) \<Rightarrow> nat \<Rightarrow> nat \<Rightarrow> 'f state \<Rightarrow> job \<Rightarrow> 'f state" where
  "interrupted_result env run_job r k st future =
     (case interrupt_point env r k of
        WhileWaiting \<Rightarrow> st
      | AfterSave \<Rightarrow> collect_result env run_job r k st future
      | AfterExtend \<Rightarrow>
          (case run_job r (fst future) (snd future) of
             Inl e \<Rightarrow> st
           | Inr batch \<Rightarrow>
               (case py_extend (all_incidents st) batch of
                  Inl e \<Rightarrow> st
                | Inr incidents \<Rightarrow> st\<lparr>all_incidents := incidents\<rparr>))
      | DuringSave n \<Rightarrow>
          (case run_job r (fst future) (snd future) of
             Inl e \<Rightarrow> st
           | Inr batch \<Rightarrow>
               (case py_extend (all_incidents st) batch of
                  Inl e \<Rightarrow> st
                | Inr incidents \<Rightarrow>
                    st\<lparr>all_incidents := incidents,
                       files := (files st)(TEMP_FILE \<mapsto> take n (json_dump env incidents))\<rparr>)))"

text \<open>
  Lines 700-713. The result says whether the round was interrupted.
\<close>

fun collect ::
  "'f world \<Rightarrow> (nat \<Rightarrow> int \<Rightarrow> int \<Rightarrow> error + 'f json list) \<Rightarrow> nat \<Rightarrow> nat \<Rightarrow> 'f state \<Rightarrow> job list \<Rightarrow>
   'f state \<times> bool" where
  "collect env run_job r k st [] = (st, False)"
| "collect env run_job r k st (future # pending) =
     (if interrupt env r k then (interrupted_result env run_job r k st future, True)
      else collect env run_job r (Suc k) (collect_result env run_job r k st future) pending)"

text \<open>
  The \<open>while\<close> loop of lines 672-713, from round \<open>r\<close> on. It need not end: where it
  does not, the value is \<open>None\<close>. An exception that is not caught in the loop ends it
  with \<open>Failed\<close>, an interruption with \<open>Interrupted\<close>.
\<close>

partial_function (option) generation_loop ::
  "'f world \<Rightarrow> (nat \<Rightarrow> int \<Rightarrow> int \<Rightarrow> error + 'f json list) \<Rightarrow> int \<Rightarrow> int \<Rightarrow> int \<Rightarrow> nat \<Rightarrow> 'f state \<Rightarrow>
   'f outcome option" where
  "generation_loop env run_job B W T r st =
     (case py_len (all_incidents st) of
        Inl e \<Rightarrow> Some (Failed e st)
      | Inr L \<Rightarrow>
          if \<not> L < T then Some (Completed st)
          else (case dispatch_round B W T L of
                  Inl e \<Rightarrow> Some (Failed e st)
                | Inr futures \<Rightarrow>
                    (case collect env run_job r 0 (st\<lparr>submitted := submitted st @ [futures]\<rparr>)
                            (as_completed env r futures) of
                       (st', interrupted) \<Rightarrow>
                         if interrupted then Some (Interrupted st')
                         else generation_loop env run_job B W T (Suc r) st')))"

declare generation_loop.simps [code]

text \<open>
  Lines 670-714: the thread pool is created, which raises a \<open>ValueError\<close> unless
  \<open>max_workers\<close> is positive, and the loop runs. \<open>Interrupted st\<close> and \<open>Failed e st\<close>
  are the interruption and the exception leaving the \<open>try\<close> block in state \<open>st\<close>, for
  the handlers of lines 733-742. \<open>Completed st\<close> is the state in which the loop is left
  for the export of lines 715-731, which belongs to the export sink.
\<close>

definition generation ::
  "'f world \<Rightarrow> (nat \<Rightarrow> int \<Rightarrow> int \<Rightarrow> error + 'f json list) \<Rightarrow> int \<Rightarrow> int \<Rightarrow> int \<Rightarrow> 'f state \<Rightarrow>
   'f outcome option" where
  "generation env run_job B W T st =
     (if W \<le> 0 then Some (Failed (ValueError ''max_workers must be greater than 0'') st)
      else generation_loop env run_job B W T 0 st)"

section \<open>Start of a run\<close>

text \<open>
  Lines 641-658 of \<open>main\<close>: the checkpoint is loaded and counted. When it already holds
  the target, the user either starts from scratch (the answer \<open>y\<close>, here \<open>overwrite\<close>),
  which empties the collection and removes the file, or the existing records go to the
  export and \<open>main\<close> returns. Otherwise generation starts with what was loaded; the second
  component is \<open>remaining\<close>.
\<close>

datatype 'f startup =
    ExportExisting "'f json"
  | StartGeneration "'f state" int
  | StartupFailed error

definition startup ::
  "(pystr \<Rightarrow> error + 'f json) \<Rightarrow> bool \<Rightarrow> bool \<Rightarrow> int \<Rightarrow> files \<Rightarrow> 'f startup" where
  "startup loads readable overwrite total_incidents fs =
     (let incidents = load_existing_incidents loads readable fs in
      case py_len incidents of
        Inl e \<Rightarrow> StartupFailed e
      | Inr existing_count \<Rightarrow>
          if existing_count \<ge> total_incidents then
            (if overwrite
             then StartGeneration
                    \<lparr>all_incidents = JArray [], files = fs(TEMP_FILE := None), submitted = []\<rparr>
                    (total_incidents - 0)
             else ExportExisting incidents)
          else StartGeneration \<lparr>all_incidents = incidents, files = fs, submitted = []\<rparr>
                 (total_incidents - existing_count))"

section \<open>Quantities of a run\<close>

text \<open>
  The records that a round appends: the batches of the jobs that return, in the order of
  the list. The number of records requested so far: the sizes of all submitted jobs.
\<close>

definition delivered ::
  "(nat \<Rightarrow> int \<Rightarrow> int \<Rightarrow> error + 'f json list) \<Rightarrow> nat \<Rightarrow> job list \<Rightarrow> 'f json list" where
  "delivered run_job r futures =
     concat (map (\<lambda>future. case run_job r (fst future) (snd future) of
                             Inl e \<Rightarrow> [] | Inr batch \<Rightarrow> batch) futures)"

definition requested :: "'f state \<Rightarrow> int" where
  "requested st = sum_list (map fst (concat (submitted st)))"

section \<open>The handlers of \<open>main\<close>\<close>








section \<open>Concrete worlds and backends\<close>

text \<open>
  Instances at which the statements below are evaluated. They stand for the library and
  the environment only: a codec that writes a list of \<open>n\<close> records as \<open>n\<close> letters, a
  decoder that knows the text \<open>[]\<close>, backends that return \<open>null\<close> records, and worlds
  that differ in the interruption and in the failing write.
\<close>

definition unary_dump :: "unit json \<Rightarrow> pystr" where
  "unary_dump v = (case v of JArray xs \<Rightarrow> replicate (length xs) 110 | _ \<Rightarrow> [])"

definition unary_loads :: "pystr \<Rightarrow> error + unit json" where
  "unary_loads text =
     (if \<forall>c\<in>set text. c = 110 then Inr (JArray (replicate (length text) JNull))
      else Inl JSONDecodeError)"

definition empty_array_loads :: "pystr \<Rightarrow> error + unit json" where
  "empty_array_loads text = (if text = [91, 93] then Inr (JArray []) else Inl JSONDecodeError)"

definition calm_world :: "unit world" where
  "calm_world = \<lparr>json_dump = unary_dump, json_loads = unary_loads,
     write_outcome = (\<lambda>r k. IoOk), finish_time = (\<lambda>r num_incidents existing_count. 0),
     interrupt = (\<lambda>r k. False), interrupt_point = (\<lambda>r k. WhileWaiting)\<rparr>"





definition null_batches :: "nat \<Rightarrow> int \<Rightarrow> int \<Rightarrow> error + unit json list" where
  "null_batches r num_incidents existing_count = Inr (replicate (nat num_incidents) JNull)"

definition generous_batches :: "nat \<Rightarrow> int \<Rightarrow> int \<Rightarrow> error + unit json list" where
  "generous_batches r num_incidents existing_count =
     Inr (replicate (if r = 0 then nat num_incidents + 1 else nat num_incidents) JNull)"

definition flaky_llm :: "nat \<Rightarrow> int \<Rightarrow> int \<Rightarrow> error + pystr" where
  "flaky_llm r num_incidents existing_count =
     (if r = 0 \<and> existing_count = 4 then Inl BackendError
      else if r = 0 \<and> existing_count = 8 then Inr [123]
      else Inr (replicate (nat num_incidents) 110))"

definition start_state :: "unit state" where
  "start_state = \<lparr>all_incidents = JArray [], files = Map.empty, submitted = []\<rparr>"

section \<open>Properties of the round dispatch\<close>


lemma neg_div_ceil:
  fixes R B :: int
  assumes "B \<ge> 1"
  shows "- ((- R) div B) = (R + B - 1) div B"
proof -
  define q where "q = (R + B - 1) div B"
  define r where "r = (R + B - 1) mod B"
  have r: "0 \<le> r" "r < B" using assms by (simp_all add: r_def)
  have "R + B - 1 = B * q + r" by (simp add: q_def r_def)
  then have "- R = B * (- q) + (B - 1 - r)" by (simp add: algebra_simps)
  then have "(- R) div B = - q"
    using r int_div_pos_eq[of "- R" B "- q" "B - 1 - r"] by simp
  then show ?thesis by (simp add: q_def)
qed

lemma ceil_div: "B \<ge> 1 \<Longrightarrow> \<lceil>real_of_int R / real_of_int B\<rceil> = (R + B - 1) div B"
  by (simp add: ceiling_divide_eq_div neg_div_ceil)

lemma submit_batches_map:
  assumes "B \<ge> 1" and "\<forall>i\<in>set is. L + i * B < T"
  shows "submit_batches B T L is = map (\<lambda>i. (min B (T - L - i * B), L + i * B)) is"
  using assms by (induction "is") (auto simp: Let_def)

lemma range_below_remaining:
  assumes "B \<ge> 1" and "0 \<le> i" and "i \<le> min W ((T - L + B - 1) div B) - 1"
  shows "L + i * B < (T::int)"
proof -
  have "i + 1 \<le> (T - L + B - 1) div B" using assms by simp
  then have "(i + 1) * B \<le> ((T - L + B - 1) div B) * B"
    using assms(1) by (simp add: mult_right_mono)
  also have "\<dots> \<le> T - L + B - 1"
    using assms(1) by (metis div_mult_mod_eq le_add_same_cancel1 pos_mod_sign less_le_trans zero_less_one)
  finally show ?thesis by (simp add: algebra_simps)
qed

lemma dispatch_round_map:
  assumes "B \<ge> 1"
  shows "dispatch_round B W T L =
     Inr (map (\<lambda>i. (min B (T - L - i * B), L + i * B)) [0 .. min W ((T - L + B - 1) div B) - 1])"
proof -
  have "\<forall>i\<in>set [0 .. min W ((T - L + B - 1) div B) - 1]. L + i * B < T"
    using assms range_below_remaining [of B _ W T L] by auto
  then show ?thesis
    using assms by (simp add: dispatch_round_def submit_batches_map)
qed

lemma batches_pos: "(B::int) \<ge> 1 \<Longrightarrow> L < T \<Longrightarrow> W \<ge> 1 \<Longrightarrow> 1 \<le> min W ((T - L + B - 1) div B)"
proof -
  assume a: "B \<ge> 1" "L < T" "W \<ge> 1"
  then have "0 < (T - L + B - 1) div B"
    using pos_imp_zdiv_pos_iff [of B "T - L + B - 1"] by simp
  then show ?thesis using a by simp
qed

text \<open>
  Claim C1. In a round that starts with \<open>L\<close> collected records, \<open>L < T\<close>, batch size
  \<open>B \<ge> 1\<close> and \<open>W \<ge> 1\<close> workers, exactly \<open>min W \<lceil>(T - L) / B\<rceil>\<close> jobs are
  submitted; job \<open>i\<close> has offset \<open>L + i * B\<close> and size \<open>min B (T - L - i * B)\<close>; the
  offsets are pairwise distinct, and the range of an earlier job ends at or before the
  offset of a later one.
\<close>

theorem round_batches:
  assumes "L < T" and "B \<ge> 1" and "W \<ge> 1"
  shows "\<exists>jobs. dispatch_round B W T L = Inr jobs \<and>
           int (length jobs) = min W \<lceil>real_of_int (T - L) / real_of_int B\<rceil> \<and>
           (\<forall>i < length jobs. jobs ! i = (min B (T - L - int i * B), L + int i * B)) \<and>
           distinct (map snd jobs) \<and>
           (\<forall>i j. i < j \<and> j < length jobs \<longrightarrow> snd (jobs ! i) + fst (jobs ! i) \<le> snd (jobs ! j))"
proof -
  let ?n = "min W ((T - L + B - 1) div B)"
  let ?jobs = "map (\<lambda>i. (min B (T - L - i * B), L + i * B)) [0 .. ?n - 1]"
  have n: "1 \<le> ?n" using assms by (simp only: batches_pos)
  have d: "dispatch_round B W T L = Inr ?jobs" using assms(2) by (rule dispatch_round_map)
  have len: "int (length ?jobs) = min W \<lceil>real_of_int (T - L) / real_of_int B\<rceil>"
    using n ceil_div [OF assms(2), of "T - L"] by simp
  have nth: "\<forall>i < length ?jobs. ?jobs ! i = (min B (T - L - int i * B), L + int i * B)"
  proof (intro allI impI)
    fix i assume "i < length ?jobs"
    then have i: "i < length [0 .. ?n - 1]" by simp
    then have "int i < ?n" by (simp only: length_upto)
    then have "0 + int i \<le> ?n - 1" by simp
    then have "[0 .. ?n - 1] ! i = int i" using nth_upto [of 0 i "?n - 1"] by simp
    then show "?jobs ! i = (min B (T - L - int i * B), L + int i * B)"
      using i by (simp only: nth_map)
  qed
  have inj: "inj_on (\<lambda>i. L + i * B) (set [0 .. ?n - 1])"
    using assms(2) by (auto simp: inj_on_def)
  have dist: "distinct (map snd ?jobs)"
    using inj by (simp add: distinct_map comp_def)
  have sep: "\<forall>i j. i < j \<and> j < length ?jobs \<longrightarrow> snd (?jobs ! i) + fst (?jobs ! i) \<le> snd (?jobs ! j)"
  proof (intro allI impI)
    fix i j :: nat assume h: "i < j \<and> j < length ?jobs"
    then have "int i + 1 \<le> int j" by simp
    then have "(int i + 1) * B \<le> int j * B" using assms(2) by (intro mult_right_mono) auto
    then have "int i * B + min B (T - L - int i * B) \<le> int j * B" by (simp add: algebra_simps)
    moreover have "?jobs ! i = (min B (T - L - int i * B), L + int i * B)"
      using nth h by (meson less_trans)
    moreover have "?jobs ! j = (min B (T - L - int j * B), L + int j * B)"
      using nth h by meson
    ultimately show "snd (?jobs ! i) + fst (?jobs ! i) \<le> snd (?jobs ! j)"
      by (simp only: fst_conv snd_conv)
  qed
  show ?thesis using d len nth dist sep by blast
qed

theorem round_batches_witness:
  "(0::int) < 10 \<and> (4::int) \<ge> 1 \<and> (2::int) \<ge> 1 \<and>
   (\<exists>jobs. dispatch_round 4 2 10 0 = Inr jobs \<and> int (length jobs) = 2 \<and> distinct (map snd jobs))"
  using round_batches [of 0 10 4 2] by auto

section \<open>Properties of a round\<close>

lemma collect_result_submitted [simp]:
  "submitted (collect_result env run_job r k st future) = submitted st"
  by (simp add: collect_result_def split: sum.splits)

lemma interrupted_result_submitted [simp]:
  "submitted (interrupted_result env run_job r k st future) = submitted st"
  by (simp add: interrupted_result_def split: interruption.splits sum.splits)

lemma collect_submitted [simp]:
  "submitted (fst (collect env run_job r k st futures)) = submitted st"
  by (induction futures arbitrary: k st) simp_all

lemma collect_not_interrupted:
  "\<forall>k. \<not> interrupt env r k \<Longrightarrow> snd (collect env run_job r k st futures) = False"
  by (induction futures arbitrary: k st) simp_all

lemma collect_result_array:
  "all_incidents st = JArray xs \<Longrightarrow>
   all_incidents (collect_result env run_job r k st future) = JArray (xs @ delivered run_job r [future])"
  by (simp add: collect_result_def delivered_def split: sum.splits)

lemma delivered_Cons:
  "delivered run_job r (future # pending) = delivered run_job r [future] @ delivered run_job r pending"
  by (simp add: delivered_def)

lemma delivered_Nil [simp]: "delivered run_job r [] = []"
  by (simp add: delivered_def)

lemma collect_array:
  "\<forall>k. \<not> interrupt env r k \<Longrightarrow> all_incidents st = JArray xs \<Longrightarrow>
   all_incidents (fst (collect env run_job r k st futures)) = JArray (xs @ delivered run_job r futures)"
proof (induction futures arbitrary: k st xs)
  case Nil
  then show ?case by simp
next
  case (Cons future pending)
  have "all_incidents (collect_result env run_job r k st future) = JArray (xs @ delivered run_job r [future])"
    using Cons.prems(2) by (rule collect_result_array)
  from Cons.IH [OF Cons.prems(1) this] show ?case
    using Cons.prems(1) by (simp add: delivered_Cons [of _ _ future pending])
qed

lemma collect_result_saved:
  assumes "write_outcome env r k = IoOk"
    and "files st TEMP_FILE = Some (json_dump env (all_incidents st)) \<or>
         (\<exists>batch. run_job r (fst future) (snd future) = Inr batch \<and> (\<exists>xs. all_incidents st = JArray xs))"
  shows "files (collect_result env run_job r k st future) TEMP_FILE =
         Some (json_dump env (all_incidents (collect_result env run_job r k st future)))"
  using assms
  by (auto simp: collect_result_def save_incidents_to_temp_def split: sum.splits)

lemma collect_result_keeps_array:
  "\<exists>xs. all_incidents st = JArray xs \<Longrightarrow> \<exists>xs. all_incidents (collect_result env run_job r k st future) = JArray xs"
  by (auto simp: collect_result_def split: sum.splits)

lemma collect_saved:
  assumes "\<forall>k. \<not> interrupt env r k" and "\<forall>k. write_outcome env r k = IoOk"
    and "\<exists>xs. all_incidents st = JArray xs"
    and "files st TEMP_FILE = Some (json_dump env (all_incidents st)) \<or>
         (\<exists>future\<in>set futures. \<exists>batch. run_job r (fst future) (snd future) = Inr batch)"
  shows "files (fst (collect env run_job r k st futures)) TEMP_FILE =
         Some (json_dump env (all_incidents (fst (collect env run_job r k st futures))))"
  using assms(3,4)
proof (induction futures arbitrary: k st)
  case Nil
  then show ?case by simp
next
  case (Cons future pending)
  let ?st = "collect_result env run_job r k st future"
  have arr: "\<exists>xs. all_incidents ?st = JArray xs"
    using Cons.prems(1) by (rule collect_result_keeps_array)
  have "files ?st TEMP_FILE = Some (json_dump env (all_incidents ?st)) \<or>
        (\<exists>future\<in>set pending. \<exists>batch. run_job r (fst future) (snd future) = Inr batch)"
  proof (cases "\<exists>future\<in>set pending. \<exists>batch. run_job r (fst future) (snd future) = Inr batch")
    case True
    then show ?thesis by simp
  next
    case False
    with Cons.prems have "files st TEMP_FILE = Some (json_dump env (all_incidents st)) \<or>
         (\<exists>batch. run_job r (fst future) (snd future) = Inr batch \<and> (\<exists>xs. all_incidents st = JArray xs))"
      by auto
    then show ?thesis using collect_result_saved assms(2) by blast
  qed
  from Cons.IH [OF arr this] show ?case using assms(1) by simp
qed

lemma sum_list_insort_key:
  fixes g :: "'a \<Rightarrow> int"
  shows "sum_list (map g (insort_key key x xs)) = g x + sum_list (map g xs)"
  by (induction xs) simp_all

lemma sum_list_sort_key:
  fixes g :: "'a \<Rightarrow> int"
  shows "sum_list (map g (sort_key key xs)) = sum_list (map g xs)"
  by (induction xs) (simp_all add: sum_list_insort_key)

lemma delivered_exact:
  assumes "\<forall>future\<in>set futures. \<exists>batch. run_job r (fst future) (snd future) = Inr batch \<and> int (length batch) = fst future"
  shows "int (length (delivered run_job r futures)) = sum_list (map fst futures)"
  using assms by (induction futures) (auto simp: delivered_def)

lemma delivered_as_completed_exact:
  assumes "\<forall>future\<in>set futures. \<exists>batch. run_job r (fst future) (snd future) = Inr batch \<and> int (length batch) = fst future"
  shows "int (length (delivered run_job r (as_completed env r futures))) = sum_list (map fst futures)"
proof -
  have "int (length (delivered run_job r (as_completed env r futures))) = sum_list (map fst (as_completed env r futures))"
    using assms by (intro delivered_exact) (simp add: as_completed_def)
  then show ?thesis by (simp add: as_completed_def sum_list_sort_key)
qed

lemma full_batches:
  fixes B R :: int
  assumes "B \<ge> 1"
  shows "int k * B \<le> R \<Longrightarrow> sum_list (map (\<lambda>i. min B (R - i * B)) [0 .. int k - 1]) = int k * B"
proof (induction k)
  case 0
  then show ?case by simp
next
  case (Suc k)
  have le: "int k * B \<le> R" using Suc.prems assms by (simp add: algebra_simps)
  have "[0 .. int (Suc k) - 1] = [0 .. int k - 1] @ [int k]"
    using upto_rec2 [of 0 "int k"] by simp
  then show ?case using Suc.IH [OF le] Suc.prems by (simp add: algebra_simps)
qed

lemma round_sum:
  fixes B W T L :: int
  assumes "B \<ge> 1" and "W \<ge> 1" and "L < T"
  shows "sum_list (map (\<lambda>i. min B (T - L - i * B)) [0 .. min W ((T - L + B - 1) div B) - 1]) =
         min (T - L) (min W ((T - L + B - 1) div B) * B)"
proof -
  let ?n = "min W ((T - L + B - 1) div B)"
  have n: "1 \<le> ?n" using assms by (simp only: batches_pos)
  define k where "k = nat (?n - 1)"
  have k: "?n = int (Suc k)" using n by (simp add: k_def)
  have below: "L + int k * B < T"
    using range_below_remaining [OF assms(1), of "int k" W T L] k by simp
  then have le: "int k * B \<le> T - L" by simp
  have "[0 .. ?n - 1] = [0 .. int k - 1] @ [int k]"
    using upto_rec2 [of 0 "int k"] k by simp
  then have "sum_list (map (\<lambda>i. min B (T - L - i * B)) [0 .. ?n - 1]) =
        int k * B + min B (T - L - int k * B)"
    using full_batches [OF assms(1) le] by simp
  also have "\<dots> = min (T - L) (?n * B)"
    unfolding k by (simp add: algebra_simps min_def)
  finally show ?thesis .
qed

lemma round_sizes_pos:
  fixes B W T L :: int
  assumes "B \<ge> 1" and "dispatch_round B W T L = Inr futures" and "future \<in> set futures"
  shows "0 < fst future"
proof -
  from assms(2) dispatch_round_map [OF assms(1), of W T L]
  have "futures = map (\<lambda>i. (min B (T - L - i * B), L + i * B)) [0 .. min W ((T - L + B - 1) div B) - 1]"
    by simp
  with assms(3) obtain i where i: "0 \<le> i" "i \<le> min W ((T - L + B - 1) div B) - 1"
    and f: "future = (min B (T - L - i * B), L + i * B)" by auto
  have "L + i * B < T" using range_below_remaining [OF assms(1) i] .
  then show ?thesis using assms(1) f by simp
qed

lemma round_requested:
  fixes B W T L :: int
  assumes "B \<ge> 1" and "W \<ge> 1" and "L < T" and "dispatch_round B W T L = Inr futures"
  shows "sum_list (map fst futures) = min (T - L) (min W ((T - L + B - 1) div B) * B)"
proof -
  from assms(4) dispatch_round_map [OF assms(1), of W T L]
  have "futures = map (\<lambda>i. (min B (T - L - i * B), L + i * B)) [0 .. min W ((T - L + B - 1) div B) - 1]"
    by simp
  then show ?thesis using round_sum [OF assms(1-3)] by (simp add: comp_def)
qed

lemma round_requested_bounds:
  fixes B W T L :: int
  assumes "B \<ge> 1" and "W \<ge> 1" and "L < T" and "dispatch_round B W T L = Inr futures"
  shows "1 \<le> sum_list (map fst futures)" and "sum_list (map fst futures) \<le> T - L"
proof -
  let ?n = "min W ((T - L + B - 1) div B)"
  have n: "1 \<le> ?n" using assms by (simp only: batches_pos)
  have "1 * 1 \<le> ?n * B" using n assms(1) by (intro mult_mono) auto
  then show "1 \<le> sum_list (map fst futures)" "sum_list (map fst futures) \<le> T - L"
    using round_requested [OF assms] assms(3) by simp_all
qed

section \<open>Runs in which every job returns what was requested\<close>

lemma requested_append [simp]: "requested (st\<lparr>submitted := submitted st @ [futures]\<rparr>) = requested st + sum_list (map fst futures)"
  by (simp add: requested_def)

lemma exact_round:
  assumes B: "B \<ge> 1" and W: "W \<ge> 1"
    and arr: "all_incidents st = JArray xs" and less: "int (length xs) < T"
    and quiet: "\<forall>k. \<not> interrupt env r k"
    and exact: "\<forall>size offset. 0 < size \<longrightarrow> (\<exists>batch. run_job r size offset = Inr batch \<and> int (length batch) = size)"
  shows "\<exists>futures ys st'.
           dispatch_round B W T (int (length xs)) = Inr futures \<and>
           generation_loop env run_job B W T r st = generation_loop env run_job B W T (Suc r) st' \<and>
           all_incidents st' = JArray (xs @ ys) \<and>
           int (length ys) = sum_list (map fst futures) \<and>
           submitted st' = submitted st @ [futures] \<and>
           ((\<forall>k. write_outcome env r k = IoOk) \<longrightarrow>
              files st' TEMP_FILE = Some (json_dump env (all_incidents st')))"
proof -
  let ?L = "int (length xs)"
  obtain futures where d: "dispatch_round B W T ?L = Inr futures"
    using dispatch_round_map [OF B] by blast
  let ?st0 = "st\<lparr>submitted := submitted st @ [futures]\<rparr>"
  let ?done = "as_completed env r futures"
  let ?st' = "fst (collect env run_job r 0 ?st0 ?done)"
  let ?ys = "delivered run_job r ?done"
  have ok: "\<forall>future\<in>set futures. \<exists>batch. run_job r (fst future) (snd future) = Inr batch \<and> int (length batch) = fst future"
    using exact round_sizes_pos [OF B d] by blast
  have sum: "1 \<le> sum_list (map fst futures)"
    using round_requested_bounds(1) [OF B W less d] .
  then have "futures \<noteq> []" by auto
  then obtain future where fut: "future \<in> set futures" by (cases futures) auto
  have arr0: "all_incidents ?st0 = JArray xs" using arr by simp
  have noint: "snd (collect env run_job r 0 ?st0 ?done) = False"
    using quiet by (rule collect_not_interrupted)
  have step: "generation_loop env run_job B W T r st = generation_loop env run_job B W T (Suc r) ?st'"
    using arr less d noint
    by (subst generation_loop.simps) (simp add: case_prod_unfold)
  have all': "all_incidents ?st' = JArray (xs @ ?ys)"
    using quiet arr0 by (rule collect_array)
  have len: "int (length ?ys) = sum_list (map fst futures)"
    using ok by (rule delivered_as_completed_exact)
  have sub: "submitted ?st' = submitted st @ [futures]" by simp
  have saved: "(\<forall>k. write_outcome env r k = IoOk) \<longrightarrow>
      files ?st' TEMP_FILE = Some (json_dump env (all_incidents ?st'))"
  proof
    assume wr: "\<forall>k. write_outcome env r k = IoOk"
    have "set ?done = set futures" by (simp add: as_completed_def)
    then have "\<exists>future\<in>set ?done. \<exists>batch. run_job r (fst future) (snd future) = Inr batch"
      using ok fut by blast
    then show "files ?st' TEMP_FILE = Some (json_dump env (all_incidents ?st'))"
      using collect_saved [OF quiet wr, of ?st0 ?done run_job 0] arr0 by blast
  qed
  show ?thesis using d step all' len sub saved by blast
qed

lemma loop_done:
  "py_len (all_incidents st) = Inr L \<Longrightarrow> T \<le> L \<Longrightarrow>
   generation_loop env run_job B W T r st = Some (Completed st)"
  by (subst generation_loop.simps) simp

lemma exact_run:
  assumes B: "B \<ge> 1" and W: "W \<ge> 1"
  shows "all_incidents st = JArray xs \<Longrightarrow> int (length xs) \<le> T \<Longrightarrow>
    \<forall>r'\<ge>r. \<forall>k. \<not> interrupt env r' k \<Longrightarrow>
    \<forall>r'\<ge>r. \<forall>size offset. 0 < size \<longrightarrow> (\<exists>batch. run_job r' size offset = Inr batch \<and> int (length batch) = size) \<Longrightarrow>
    \<exists>st' ys. generation_loop env run_job B W T r st = Some (Completed st') \<and>
       all_incidents st' = JArray (xs @ ys) \<and>
       int (length (xs @ ys)) = T \<and>
       requested st' = requested st + (T - int (length xs)) \<and>
       ((\<forall>r'\<ge>r. \<forall>k. write_outcome env r' k = IoOk) \<and>
        (int (length xs) < T \<or> files st TEMP_FILE = Some (json_dump env (all_incidents st))) \<longrightarrow>
          files st' TEMP_FILE = Some (json_dump env (all_incidents st')))"
proof (induction "nat (T - int (length xs))" arbitrary: r st xs rule: less_induct)
  case less
  show ?case
  proof (cases "int (length xs) < T")
    case False
    then have eq: "int (length xs) = T" using less.prems(2) by simp
    have "generation_loop env run_job B W T r st = Some (Completed st)"
      using less.prems(1) eq by (intro loop_done [where L = "int (length xs)"]) simp_all
    then show ?thesis using less.prems(1) eq
      by (intro exI [of _ st] exI [of _ "[]"]) simp
  next
    case True
    have quiet: "\<forall>k. \<not> interrupt env r k" using less.prems(3) by blast
    have exact: "\<forall>size offset. 0 < size \<longrightarrow> (\<exists>batch. run_job r size offset = Inr batch \<and> int (length batch) = size)"
      using less.prems(4) by blast
    from exact_round [where run_job = run_job and r = r and env = env, OF B W less.prems(1) True quiet exact]
    obtain futures ys st1 where
      d: "dispatch_round B W T (int (length xs)) = Inr futures" and
      step: "generation_loop env run_job B W T r st = generation_loop env run_job B W T (Suc r) st1" and
      all1: "all_incidents st1 = JArray (xs @ ys)" and
      len: "int (length ys) = sum_list (map fst futures)" and
      sub: "submitted st1 = submitted st @ [futures]" and
      saved: "(\<forall>k. write_outcome env r k = IoOk) \<longrightarrow>
              files st1 TEMP_FILE = Some (json_dump env (all_incidents st1))"
      by blast
    have lo: "1 \<le> int (length ys)" and hi: "int (length ys) \<le> T - int (length xs)"
      using round_requested_bounds [OF B W True d] len by simp_all
    have m: "nat (T - int (length (xs @ ys))) < nat (T - int (length xs))"
      using lo True by (simp only: length_append of_nat_add)
    have le1: "int (length (xs @ ys)) \<le> T" using hi by simp
    have q1: "\<forall>r'\<ge>Suc r. \<forall>k. \<not> interrupt env r' k" using less.prems(3) by simp
    have e1: "\<forall>r'\<ge>Suc r. \<forall>size offset. 0 < size \<longrightarrow> (\<exists>batch. run_job r' size offset = Inr batch \<and> int (length batch) = size)"
      using less.prems(4) by simp
    from less.hyps [OF m all1 le1 q1 e1]
    obtain st' zs where
      fin: "generation_loop env run_job B W T (Suc r) st1 = Some (Completed st')" and
      all': "all_incidents st' = JArray ((xs @ ys) @ zs)" and
      tot: "int (length ((xs @ ys) @ zs)) = T" and
      req: "requested st' = requested st1 + (T - int (length (xs @ ys)))" and
      sav': "(\<forall>r'\<ge>Suc r. \<forall>k. write_outcome env r' k = IoOk) \<and>
        (int (length (xs @ ys)) < T \<or> files st1 TEMP_FILE = Some (json_dump env (all_incidents st1))) \<longrightarrow>
          files st' TEMP_FILE = Some (json_dump env (all_incidents st'))"
      by blast
    have req1: "requested st1 = requested st + int (length ys)"
      using sub len by (simp add: requested_def)
    have r1: "generation_loop env run_job B W T r st = Some (Completed st')" using step fin by simp
    have r2: "all_incidents st' = JArray (xs @ (ys @ zs))" using all' by simp
    have r3: "int (length (xs @ (ys @ zs))) = T" using tot by simp
    have r4: "requested st' = requested st + (T - int (length xs))" using req req1 by simp
    have r5: "(\<forall>r'\<ge>r. \<forall>k. write_outcome env r' k = IoOk) \<and>
        (int (length xs) < T \<or> files st TEMP_FILE = Some (json_dump env (all_incidents st))) \<longrightarrow>
          files st' TEMP_FILE = Some (json_dump env (all_incidents st'))"
      using saved sav' by simp
    show ?thesis using r1 r2 r3 r4 r5 by blast
  qed
qed

lemma dispatch_4_2_10_0: "dispatch_round 4 2 10 0 = Inr [(4, 0), (4, 4)]"
  by (simp add: dispatch_round_def upto.simps)

lemma dispatch_4_2_10_8: "dispatch_round 4 2 10 8 = Inr [(2, 8)]"
  by (simp add: dispatch_round_def upto.simps)

text \<open>
  Claim C2. Target 10, batch size 4, two workers, an empty collection at the start, every
  job returning exactly the requested number of records, no interruption and every write
  of the checkpoint succeeding: the run completes after exactly two rounds, the first
  submitting the sizes 4 and 4 (offsets 0 and 4), the second the size 2 (offset 8); the
  final collection has 10 records and the checkpoint file holds the dump of all of them.
\<close>

theorem end_to_end_scenario:
  assumes quiet: "\<forall>r k. \<not> interrupt env r k"
    and writes: "\<forall>r k. write_outcome env r k = IoOk"
    and exact: "\<forall>r size offset. 0 < size \<longrightarrow>
                 (\<exists>batch. run_job r size offset = Inr batch \<and> int (length batch) = size)"
    and empty: "all_incidents st = JArray []" and fresh: "submitted st = []"
  shows "\<exists>st' ys. generation env run_job 4 2 10 st = Some (Completed st') \<and>
           submitted st' = [[(4, 0), (4, 4)], [(2, 8)]] \<and>
           all_incidents st' = JArray ys \<and> length ys = 10 \<and>
           files st' TEMP_FILE = Some (json_dump env (JArray ys))"
proof -
  have q: "\<forall>k. \<not> interrupt env r k" for r using quiet by simp
  have e: "\<forall>size offset. 0 < size \<longrightarrow>
               (\<exists>batch. run_job r size offset = Inr batch \<and> int (length batch) = size)" for r
    using exact by simp
  have wr: "\<forall>k. write_outcome env r k = IoOk" for r using writes by simp
  from exact_round [where run_job = run_job and r = 0 and env = env and B = 4 and W = 2 and T = 10,
      OF _ _ empty _ q e]
  obtain ys1 st1 where
    step1: "generation_loop env run_job 4 2 10 0 st = generation_loop env run_job 4 2 10 (Suc 0) st1" and
    all1: "all_incidents st1 = JArray ([] @ ys1)" and
    len1: "int (length ys1) = 8" and
    sub1: "submitted st1 = [[(4, 0), (4, 4)]]"
    using fresh by (auto simp: dispatch_4_2_10_0)
  have all1': "all_incidents st1 = JArray ys1" using all1 by simp
  have lt: "int (length ys1) < 10" using len1 by simp
  from exact_round [where run_job = run_job and r = "Suc 0" and env = env and B = 4 and W = 2 and T = 10,
      OF _ _ all1' lt q e]
  obtain ys2 st2 where
    step2: "generation_loop env run_job 4 2 10 (Suc 0) st1 = generation_loop env run_job 4 2 10 (Suc (Suc 0)) st2" and
    all2: "all_incidents st2 = JArray (ys1 @ ys2)" and
    len2: "int (length ys2) = 2" and
    sub2: "submitted st2 = [[(4, 0), (4, 4)], [(2, 8)]]" and
    sav2: "files st2 TEMP_FILE = Some (json_dump env (all_incidents st2))"
    using sub1 len1 wr by (auto simp: dispatch_4_2_10_8)
  have "py_len (all_incidents st2) = Inr 10" using all2 len1 len2 by simp
  then have fin: "generation_loop env run_job 4 2 10 (Suc (Suc 0)) st2 = Some (Completed st2)"
    by (rule loop_done) simp
  have "generation env run_job 4 2 10 st = Some (Completed st2)"
    using step1 step2 fin by (simp add: generation_def)
  moreover have "length (ys1 @ ys2) = 10" using len1 len2 by simp
  ultimately show ?thesis using sub2 all2 sav2 by auto
qed

theorem end_to_end_scenario_witness:
  "\<exists>st' ys. generation calm_world null_batches 4 2 10 start_state = Some (Completed st') \<and>
      submitted st' = [[(4, 0), (4, 4)], [(2, 8)]] \<and>
      all_incidents st' = JArray ys \<and> length ys = 10 \<and>
      files st' TEMP_FILE = Some (json_dump calm_world (JArray ys))"
  using end_to_end_scenario [of calm_world null_batches start_state]
  by (simp add: calm_world_def null_batches_def start_state_def)

lemma startup_generate:
  assumes "load_existing_incidents loads readable fs = JArray xs" and "int (length xs) < T"
  shows "startup loads readable overwrite T fs =
         StartGeneration \<lparr>all_incidents = JArray xs, files = fs, submitted = []\<rparr> (T - int (length xs))"
  using assms by (simp add: startup_def)

text \<open>
  Claim C3. When the checkpoint loads as \<open>K\<close> records and the target \<open>T\<close> is larger, and
  every job returns exactly the requested number of records (batch size and worker count
  at least 1, no interruption), then the run starts generation with \<open>remaining = T - K\<close>,
  the loop ends with exactly \<open>T\<close> records, and the sizes of all jobs submitted over all
  rounds add up to exactly \<open>T - K\<close>.
\<close>

theorem resumable_generation:
  assumes B: "B \<ge> 1" and W: "W \<ge> 1"
    and loaded: "load_existing_incidents (json_loads env) readable fs = JArray xs"
    and less: "int (length xs) < T"
    and quiet: "\<forall>r k. \<not> interrupt env r k"
    and exact: "\<forall>r size offset. 0 < size \<longrightarrow>
                 (\<exists>batch. run_job r size offset = Inr batch \<and> int (length batch) = size)"
  shows "\<exists>st st' ys.
           startup (json_loads env) readable overwrite T fs = StartGeneration st (T - int (length xs)) \<and>
           all_incidents st = JArray xs \<and>
           generation env run_job B W T st = Some (Completed st') \<and>
           all_incidents st' = JArray (xs @ ys) \<and>
           int (length (xs @ ys)) = T \<and>
           requested st' = T - int (length xs)"
proof -
  let ?st = "\<lparr>all_incidents = JArray xs, files = fs, submitted = []\<rparr>"
  have s: "startup (json_loads env) readable overwrite T fs = StartGeneration ?st (T - int (length xs))"
    using loaded less by (rule startup_generate)
  have a: "all_incidents ?st = JArray xs" by simp
  have le: "int (length xs) \<le> T" using less by simp
  have q: "\<forall>r'\<ge>0. \<forall>k. \<not> interrupt env r' k" using quiet by simp
  have e: "\<forall>r'\<ge>0. \<forall>size offset. 0 < size \<longrightarrow>
             (\<exists>batch. run_job r' size offset = Inr batch \<and> int (length batch) = size)"
    using exact by simp
  from exact_run [where run_job = run_job and env = env and r = 0, OF B W a le q e]
  obtain st' ys where
    "generation_loop env run_job B W T 0 ?st = Some (Completed st')"
    "all_incidents st' = JArray (xs @ ys)" "int (length (xs @ ys)) = T"
    "requested st' = requested ?st + (T - int (length xs))"
    by blast
  then have "generation env run_job B W T ?st = Some (Completed st') \<and>
     all_incidents st' = JArray (xs @ ys) \<and> int (length (xs @ ys)) = T \<and>
     requested st' = T - int (length xs)"
    using W by (simp add: generation_def requested_def)
  then show ?thesis using s a by blast
qed

theorem resumable_generation_witness:
  "\<exists>st st' ys.
     startup (json_loads calm_world) True False 10 [TEMP_FILE \<mapsto> replicate 3 110] =
       StartGeneration st (10 - 3) \<and>
     all_incidents st = JArray (replicate 3 JNull) \<and>
     generation calm_world null_batches 4 2 10 st = Some (Completed st') \<and>
     all_incidents st' = JArray (replicate 3 JNull @ ys) \<and>
     int (length (replicate 3 JNull @ ys)) = 10 \<and>
     requested st' = 10 - 3"
  using resumable_generation [of 4 2 calm_world True "[TEMP_FILE \<mapsto> replicate 3 110]" "replicate 3 JNull" 10 null_batches False]
  by (simp add: calm_world_def null_batches_def load_existing_incidents_def unary_loads_def)

section \<open>Failed jobs\<close>

lemma collect_result_failed:
  "isl (run_job r (fst future) (snd future)) \<Longrightarrow> collect_result env run_job r k s future = s"
  by (cases "run_job r (fst future) (snd future)") (simp_all add: collect_result_def)

lemma sum_list_filter_sort_key:
  fixes g :: "'a \<Rightarrow> int"
  shows "sum_list (map g (filter P (sort_key key xs))) = sum_list (map g (filter P xs))"
proof -
  have "sum_list (map g (filter P ys)) = sum_list (map (\<lambda>x. if P x then g x else 0) ys)" for ys
    by (induction ys) simp_all
  then show ?thesis by (simp add: sum_list_sort_key)
qed

lemma delivered_partial:
  assumes "\<forall>future\<in>set futures. isl (run_job r (fst future) (snd future)) \<or>
             (\<exists>batch. run_job r (fst future) (snd future) = Inr batch \<and> int (length batch) = fst future)"
  shows "int (length (delivered run_job r futures)) =
         sum_list (map fst (filter (\<lambda>future. \<not> isl (run_job r (fst future) (snd future))) futures))"
  using assms by (induction futures) (auto simp: delivered_def split: sum.splits)

lemma sum_list_filter_le:
  fixes g :: "'a \<Rightarrow> int"
  assumes "\<forall>x\<in>set xs. 0 \<le> g x"
  shows "sum_list (map g (filter P xs)) \<le> sum_list (map g xs)"
  using assms by (induction xs) auto

text \<open>
  Claim C4. In a round \<open>r\<close> whose jobs run \<open>generate_incident_batch\<close>, let each job either
  fail (the backend or the parser raises) or return its requested count. A failed job is
  caught in the collecting loop and leaves the state as it is, for any state and position
  in the round; the loop goes on to the next round with the batches of the other jobs
  appended; the next \<open>remaining\<close> is the old one less the sizes of the successful jobs
  only, so the sizes of the failed jobs are still in it; and when the jobs of the later
  rounds succeed, the run completes with exactly \<open>T\<close> records.
\<close>

theorem failed_batch_rolls_over:
  fixes env :: "'f world" and call_llm :: "nat \<Rightarrow> int \<Rightarrow> int \<Rightarrow> error + pystr"
  defines "run_job \<equiv> generate_incident_batch (json_loads env) call_llm"
  assumes B: "B \<ge> 1" and W: "W \<ge> 1"
    and arr: "all_incidents st = JArray xs" and less: "int (length xs) < T"
    and d: "dispatch_round B W T (int (length xs)) = Inr futures"
    and quiet: "\<forall>r'\<ge>r. \<forall>k. \<not> interrupt env r' k"
    and round: "\<forall>future\<in>set futures. isl (run_job r (fst future) (snd future)) \<or>
             (\<exists>batch. run_job r (fst future) (snd future) = Inr batch \<and> int (length batch) = fst future)"
    and later: "\<forall>r'>r. \<forall>size offset. 0 < size \<longrightarrow>
             (\<exists>batch. run_job r' size offset = Inr batch \<and> int (length batch) = size)"
  shows "\<exists>st1 st' zs.
     (\<forall>future\<in>set futures. \<forall>k s. isl (run_job r (fst future) (snd future)) \<longrightarrow>
         collect_result env run_job r k s future = s) \<and>
     generation_loop env run_job B W T r st = generation_loop env run_job B W T (Suc r) st1 \<and>
     all_incidents st1 = JArray (xs @ delivered run_job r (as_completed env r futures)) \<and>
     T - int (length (xs @ delivered run_job r (as_completed env r futures))) =
       (T - int (length xs)) -
       sum_list (map fst (filter (\<lambda>future. \<not> isl (run_job r (fst future) (snd future))) futures)) \<and>
     generation_loop env run_job B W T r st = Some (Completed st') \<and>
     all_incidents st' = JArray zs \<and> int (length zs) = T"
proof -
  let ?st0 = "st\<lparr>submitted := submitted st @ [futures]\<rparr>"
  let ?done = "as_completed env r futures"
  let ?st1 = "fst (collect env run_job r 0 ?st0 ?done)"
  let ?ys = "delivered run_job r ?done"
  let ?ok = "\<lambda>future. \<not> isl (run_job r (fst future) (snd future))"
  have q: "\<forall>k. \<not> interrupt env r k" using quiet by blast
  have c1: "\<forall>future\<in>set futures. \<forall>k s. isl (run_job r (fst future) (snd future)) \<longrightarrow>
         collect_result env run_job r k s future = s"
    by (simp add: collect_result_failed)
  have noint: "snd (collect env run_job r 0 ?st0 ?done) = False"
    using q by (rule collect_not_interrupted)
  have c2: "generation_loop env run_job B W T r st = generation_loop env run_job B W T (Suc r) ?st1"
    using arr less d noint by (subst generation_loop.simps) (simp add: case_prod_unfold)
  have arr0: "all_incidents ?st0 = JArray xs" using arr by simp
  have c3: "all_incidents ?st1 = JArray (xs @ ?ys)"
    using q arr0 by (rule collect_array)
  have "set ?done = set futures" by (simp add: as_completed_def)
  then have "int (length ?ys) = sum_list (map fst (filter ?ok ?done))"
    using round by (intro delivered_partial) simp
  then have len: "int (length ?ys) = sum_list (map fst (filter ?ok futures))"
    by (simp add: as_completed_def sum_list_filter_sort_key)
  then have c4: "T - int (length (xs @ ?ys)) = (T - int (length xs)) - sum_list (map fst (filter ?ok futures))"
    by simp
  have "\<forall>future\<in>set futures. 0 \<le> fst future"
    using round_sizes_pos [OF B d] by force
  then have "sum_list (map fst (filter ?ok futures)) \<le> sum_list (map fst futures)"
    by (rule sum_list_filter_le)
  also have "\<dots> \<le> T - int (length xs)"
    using round_requested_bounds(2) [OF B W less d] .
  finally have le1: "int (length (xs @ ?ys)) \<le> T" using len by simp
  have q1: "\<forall>r'\<ge>Suc r. \<forall>k. \<not> interrupt env r' k" using quiet by simp
  have e1: "\<forall>r'\<ge>Suc r. \<forall>size offset. 0 < size \<longrightarrow>
             (\<exists>batch. run_job r' size offset = Inr batch \<and> int (length batch) = size)"
    using later by (simp add: Suc_le_eq)
  from exact_run [where run_job = run_job and env = env and r = "Suc r", OF B W c3 le1 q1 e1]
  obtain st' zs where
    "generation_loop env run_job B W T (Suc r) ?st1 = Some (Completed st')"
    "all_incidents st' = JArray ((xs @ ?ys) @ zs)" "int (length ((xs @ ?ys) @ zs)) = T"
    by blast
  then have c5: "generation_loop env run_job B W T r st = Some (Completed st') \<and>
     all_incidents st' = JArray ((xs @ ?ys) @ zs) \<and> int (length ((xs @ ?ys) @ zs)) = T"
    using c2 by simp
  show ?thesis using c1 c2 c3 c4 c5 by blast
qed

lemma strip_plain:
  assumes "\<forall>c\<in>set s. \<not> isspace c"
  shows "strip s = s"
proof -
  have "dropWhile isspace s = s"
    using assms by (cases s) simp_all
  moreover have "dropWhile isspace (rev s) = rev s"
    using assms by (cases "rev s") (simp, metis dropWhile.simps(2) list.set_intros(1) set_rev)
  ultimately show ?thesis by (simp add: strip_def lstrip_def rstrip_def)
qed

lemma clean_plain:
  assumes "\<forall>c\<in>set s. \<not> isspace c \<and> c \<noteq> 96"
  shows "clean_content s = s"
proof -
  have s: "strip s = s" using assms by (intro strip_plain) simp
  have "\<not> startswith s fence"
  proof
    assume "startswith s fence"
    then have t: "take (length fence) s = fence" by (simp add: startswith_def)
    have "96 \<in> set fence" by (simp add: fence_def)
    then have "96 \<in> set (take (length fence) s)" by (simp only: t)
    then have "96 \<in> set s" by (rule in_set_takeD)
    then show False using assms by blast
  qed
  then show ?thesis by (simp add: clean_content_def s)
qed

lemma parse_unary: "parse_response unary_loads (replicate n 110) = Inr (replicate n JNull)"
proof -
  have "clean_content (replicate n 110) = replicate n 110"
    by (rule clean_plain) (simp add: isspace_def)
  then show ?thesis by (simp add: parse_response_def unary_loads_def)
qed

lemma parse_brace: "parse_response unary_loads [123] = Inl JSONDecodeError"
proof -
  have "clean_content [123] = [123]"
    by (rule clean_plain) (simp add: isspace_def)
  then show ?thesis by (simp add: parse_response_def unary_loads_def)
qed

lemma dispatch_4_3_12_0: "dispatch_round 4 3 12 0 = Inr [(4, 0), (4, 4), (4, 8)]"
  by (simp add: dispatch_round_def upto.simps)

text \<open>
  Target 12, batch size 4, three workers: in the first round the second job fails in the
  backend and the third in the parser, and the run still completes with 12 records.
\<close>

theorem failed_batch_rolls_over_witness:
  "generate_incident_batch (json_loads calm_world) flaky_llm 0 4 4 = Inl BackendError \<and>
   generate_incident_batch (json_loads calm_world) flaky_llm 0 4 8 = Inl JSONDecodeError \<and>
   (\<exists>st' zs.
     generation_loop calm_world (generate_incident_batch (json_loads calm_world) flaky_llm) 4 3 12 0
        start_state = Some (Completed st') \<and>
     all_incidents st' = JArray zs \<and> int (length zs) = 12)"
proof -
  let ?st = "start_state"
  let ?job = "generate_incident_batch (json_loads calm_world) flaky_llm"
  have B: "(1::int) \<le> 4" and W: "(1::int) \<le> 3" by simp_all
  have arr: "all_incidents ?st = JArray []" by (simp add: start_state_def)
  have less: "int (length ([] :: unit json list)) < 12" by simp
  have d: "dispatch_round 4 3 12 (int (length ([] :: unit json list))) = Inr [(4, 0), (4, 4), (4, 8)]"
    by (simp add: dispatch_4_3_12_0)
  have quiet: "\<forall>r'\<ge>0. \<forall>k. \<not> interrupt calm_world r' k" by (simp add: calm_world_def)
  have round: "\<forall>future\<in>set [(4, 0), (4, 4), (4, 8)]. isl (?job 0 (fst future) (snd future)) \<or>
       (\<exists>batch. ?job 0 (fst future) (snd future) = Inr batch \<and> int (length batch) = fst future)"
    by (simp add: generate_incident_batch_def flaky_llm_def calm_world_def parse_unary parse_brace)
  have later: "\<forall>r'>0. \<forall>size offset. 0 < size \<longrightarrow>
       (\<exists>batch. ?job r' size offset = Inr batch \<and> int (length batch) = size)"
    by (simp add: generate_incident_batch_def flaky_llm_def calm_world_def parse_unary)
  from failed_batch_rolls_over [where env = calm_world and call_llm = flaky_llm and r = 0
      and st = ?st and T = 12, OF B W arr less d quiet round later]
  have "\<exists>st' zs. generation_loop calm_world ?job 4 3 12 0 start_state = Some (Completed st') \<and>
     all_incidents st' = JArray zs \<and> int (length zs) = 12"
    by blast
  moreover have "?job 0 4 4 = Inl BackendError" "?job 0 4 8 = Inl JSONDecodeError"
    by (simp_all add: generate_incident_batch_def flaky_llm_def calm_world_def parse_brace)
  ultimately show ?thesis by simp
qed

section \<open>Properties of the response parser\<close>

lemma not_space_backquote: "\<not> isspace 96"
  by (simp add: isspace_def)

lemma lstrip_spaces: "\<forall>c\<in>set ws. isspace c \<Longrightarrow> lstrip (ws @ s) = lstrip s"
  by (simp add: lstrip_def dropWhile_append2)

lemma lstrip_keeps: "\<not> isspace c \<Longrightarrow> lstrip (c # s) = c # s"
  by (simp add: lstrip_def)

lemma rstrip_spaces: "\<forall>c\<in>set ws. isspace c \<Longrightarrow> rstrip (s @ ws) = rstrip s"
proof -
  assume "\<forall>c\<in>set ws. isspace c"
  then have "dropWhile isspace (rev ws @ rev s) = dropWhile isspace (rev s)"
    by (intro dropWhile_append2) simp
  then show ?thesis by (simp add: rstrip_def)
qed

lemma rstrip_keeps: "\<not> isspace c \<Longrightarrow> rstrip (s @ [c]) = s @ [c]"
  by (simp add: rstrip_def)

lemma strip_padded:
  assumes "\<forall>c\<in>set ws1. isspace c" and "\<forall>c\<in>set ws2. isspace c"
    and "\<not> isspace a" and "\<not> isspace b"
  shows "strip (ws1 @ (a # m @ [b]) @ ws2) = a # m @ [b]"
proof -
  have "lstrip (ws1 @ (a # m @ [b]) @ ws2) = (a # m @ [b]) @ ws2"
    using assms(1,3) by (simp add: lstrip_spaces lstrip_keeps)
  moreover have "rstrip ((a # m @ [b]) @ ws2) = a # m @ [b]"
    using assms(2,4) rstrip_keeps [of b "a # m"] by (simp only: rstrip_spaces) simp
  ultimately show ?thesis by (simp add: strip_def)
qed

lemma split_nl_nonempty [simp]: "split_nl s \<noteq> []"
  by (induction s) (auto split: list.splits)

lemma split_nl_append: "split_nl (a @ nl # b) = split_nl a @ split_nl b"
proof (induction a)
  case Nil
  then show ?case by simp
next
  case (Cons c a)
  then show ?case by (cases "split_nl a") (auto split: list.splits)
qed

lemma split_nl_single: "nl \<notin> set s \<Longrightarrow> split_nl s = [s]"
  by (induction s) auto

lemma join_nl_Cons: "join_nl ((c # l) # ls) = c # join_nl (l # ls)"
  by (cases ls) simp_all

lemma join_nl_empty_line: "ls \<noteq> [] \<Longrightarrow> join_nl ([] # ls) = nl # join_nl ls"
  by (cases ls) simp_all

lemma join_split_nl: "join_nl (split_nl s) = s"
proof (induction s)
  case Nil
  then show ?case by simp
next
  case (Cons c s)
  then show ?case
    by (cases "split_nl s") (auto simp: join_nl_Cons join_nl_empty_line)
qed

lemma startswith_fence_append: "startswith (fence @ s) fence"
  by (simp add: startswith_def fence_def)

lemma nl_not_in_fence: "nl \<notin> set fence"
  by (simp add: nl_def fence_def)

lemma fenced_lines:
  assumes "nl \<notin> set tag"
  shows "split_nl (fence @ tag @ [nl] @ J @ [nl] @ fence) = (fence @ tag) # split_nl J @ [fence]"
proof -
  have "split_nl ((fence @ tag) @ nl # (J @ nl # fence)) = split_nl (fence @ tag) @ split_nl (J @ nl # fence)"
    by (rule split_nl_append)
  also have "split_nl (fence @ tag) = [fence @ tag]"
    using assms nl_not_in_fence by (intro split_nl_single) simp
  also have "split_nl (J @ nl # fence) = split_nl J @ [fence]"
    using nl_not_in_fence by (simp add: split_nl_append split_nl_single)
  finally show ?thesis by simp
qed

lemma clean_fenced:
  assumes ws1: "\<forall>c\<in>set ws1. isspace c" and ws2: "\<forall>c\<in>set ws2. isspace c"
    and tag: "nl \<notin> set tag"
    and lines: "\<forall>l\<in>set (split_nl J). \<not> startswith l fence"
  shows "clean_content (ws1 @ fence @ tag @ [nl] @ J @ [nl] @ fence @ ws2) = strip J"
proof -
  let ?X = "fence @ tag @ [nl] @ J @ [nl] @ fence"
  have shape: "?X = 96 # ([96, 96] @ tag @ [nl] @ J @ [nl] @ [96, 96]) @ [96]"
    by (simp add: fence_def)
  have "strip (ws1 @ ?X @ ws2) = ?X"
    using strip_padded [OF ws1 ws2 not_space_backquote not_space_backquote,
        of "[96, 96] @ tag @ [nl] @ J @ [nl] @ [96, 96]"]
    by (simp add: fence_def)
  then have s: "strip (ws1 @ fence @ tag @ [nl] @ J @ [nl] @ fence @ ws2) = ?X" by simp
  have st: "startswith ?X fence" by (rule startswith_fence_append)
  have keep: "filter (\<lambda>l. \<not> startswith l fence) (split_nl J) = split_nl J"
    using lines by (simp add: filter_id_conv)
  have "startswith (fence @ tag) fence" "startswith fence fence"
    by (simp_all add: startswith_def)
  then have "filter (\<lambda>l. \<not> startswith l fence) ((fence @ tag) # split_nl J @ [fence]) = split_nl J"
    using keep by simp
  then have "filter (\<lambda>l. \<not> startswith l fence) (split_nl ?X) = split_nl J"
    by (simp only: fenced_lines [OF tag])
  then have "join_nl (filter (\<lambda>l. \<not> startswith l fence) (split_nl ?X)) = J"
    by (simp add: join_split_nl)
  then show ?thesis
    unfolding clean_content_def s Let_def using st by simp
qed

text \<open>
  Claim C7. Let \<open>J\<close> be a text none of whose lines starts with a code fence and that,
  stripped, does not start with one: this holds of every JSON array text, which starts
  with a bracket and has line feeds only between tokens, none of which starts with a
  backquote. Then \<open>J\<close> between a leading fence line, with or without a language tag
  \<open>tag\<close>, and a trailing fence line, the whole surrounded by any whitespace \<open>ws1\<close> and
  \<open>ws2\<close>, is parsed to exactly the result of parsing \<open>J\<close> alone, whatever the decoder.
\<close>

theorem fenced_response_parses_alike:
  assumes "\<forall>c\<in>set ws1. isspace c" and "\<forall>c\<in>set ws2. isspace c"
    and "nl \<notin> set tag"
    and "\<forall>l\<in>set (split_nl J). \<not> startswith l fence"
    and "\<not> startswith (strip J) fence"
  shows "parse_response loads (ws1 @ fence @ tag @ [nl] @ J @ [nl] @ fence @ ws2) =
         parse_response loads J"
proof -
  have "clean_content J = strip J"
    using assms(5) by (simp add: clean_content_def)
  then show ?thesis
    using clean_fenced [OF assms(1-4)] by (simp add: parse_response_def)
qed

theorem fenced_response_parses_alike_witness:
  "parse_response empty_array_loads ([32] @ fence @ [106, 115, 111, 110] @ [nl] @ [91, 93] @ [nl] @ fence @ [10]) =
   parse_response empty_array_loads [91, 93] \<and>
   parse_response empty_array_loads [91, 93] = Inr []"
  using fenced_response_parses_alike [of "[32]" "[10]" "[106, 115, 111, 110]" "[91, 93]" empty_array_loads]
  by (simp add: empty_array_loads_def clean_content_def strip_def lstrip_def rstrip_def
      startswith_def fence_def nl_def isspace_def parse_response_def)

text \<open>
  Claim C8. Parsing a raw text fails if and only if the decoder fails on the cleaned text
  (stripped, fence lines removed) or decodes it to a value that is not an array; and when
  the decoder returns an array, the parser returns its elements as they are, whatever
  their shape.
\<close>

theorem parse_error_iff:
  "(isl (parse_response loads raw) \<longleftrightarrow>
      isl (loads (clean_content raw)) \<or>
      (\<exists>v. loads (clean_content raw) = Inr v \<and> (\<forall>xs. v \<noteq> JArray xs))) \<and>
   (\<forall>xs. loads (clean_content raw) = Inr (JArray xs) \<longrightarrow> parse_response loads raw = Inr xs)"
  by (auto simp: parse_response_def split: sum.splits json.splits)

theorem parse_error_iff_witness:
  "parse_response empty_array_loads [96, 96, 96, 10, 91, 93, 10, 96, 96, 96] = Inr [] \<and>
   isl (parse_response empty_array_loads [91])"
  using parse_error_iff [of empty_array_loads "[96, 96, 96, 10, 91, 93, 10, 96, 96, 96]"]
    parse_error_iff [of empty_array_loads "[91]"]
  by (simp add: empty_array_loads_def clean_content_def strip_def lstrip_def rstrip_def
      startswith_def fence_def nl_def isspace_def)

section \<open>Properties of the checkpoint\<close>



text \<open>
  Claim C9. When the checkpoint file exists but cannot be read or is not valid JSON,
  loading returns the empty list, as it does for an absent file; \<open>main\<close> then starts
  generation with no records and the whole (positive) target remaining; and a successful
  save replaces the contents of the file by the dump of the saved collection.
\<close>

theorem unreadable_checkpoint_is_empty:
  assumes "fs TEMP_FILE = Some text" and "\<not> readable \<or> isl (loads text)" and "0 < T"
  shows "load_existing_incidents loads readable fs = JArray [] \<and>
         load_existing_incidents loads readable fs = load_existing_incidents loads readable (fs(TEMP_FILE := None)) \<and>
         startup loads readable overwrite T fs =
           StartGeneration \<lparr>all_incidents = JArray [], files = fs, submitted = []\<rparr> T \<and>
         save_incidents_to_temp dump IoOk incidents fs TEMP_FILE = Some (dump incidents)"
  using assms
  by (auto simp: load_existing_incidents_def startup_def save_incidents_to_temp_def split: sum.splits)

theorem unreadable_checkpoint_is_empty_witness:
  "load_existing_incidents unary_loads True [TEMP_FILE \<mapsto> [123]] = JArray [] \<and>
   startup unary_loads True False 10 [TEMP_FILE \<mapsto> [123]] =
     StartGeneration \<lparr>all_incidents = JArray [], files = [TEMP_FILE \<mapsto> [123]], submitted = []\<rparr> 10 \<and>
   save_incidents_to_temp unary_dump IoOk (JArray [JNull]) [TEMP_FILE \<mapsto> [123]] TEMP_FILE = Some [110]"
  using unreadable_checkpoint_is_empty [of "[TEMP_FILE \<mapsto> [123]]" "[123]" True unary_loads 10 False unary_dump "JArray [JNull]"]
  by (simp add: unary_loads_def unary_dump_def)

section \<open>The end of the loop\<close>

lemma completed_reaches_target:
  assumes "generation_loop env run_job B W T r st = Some out"
  shows "\<forall>st'. out = Completed st' \<longrightarrow> (\<exists>L'. py_len (all_incidents st') = Inr L' \<and> T \<le> L')"
  by (rule generation_loop.raw_induct
        [OF _ assms, where P = "\<lambda>env run_job B W T r st out.
            \<forall>st'. out = Completed st' \<longrightarrow> (\<exists>L'. py_len (all_incidents st') = Inr L' \<and> T \<le> L')"])
     (auto split: sum.splits if_splits prod.splits)

lemma ceil_covers:
  fixes R B :: int
  assumes "B \<ge> 1"
  shows "R \<le> ((R + B - 1) div B) * B"
proof -
  have "(R + B - 1) mod B \<le> B - 1" using assms by simp
  moreover have "((R + B - 1) div B) * B + (R + B - 1) mod B = R + B - 1" by simp
  ultimately show ?thesis by linarith
qed

lemma sum_list_strict:
  fixes g h :: "'a \<Rightarrow> int"
  assumes "\<forall>x\<in>set xs. g x \<le> h x" and "\<exists>x\<in>set xs. g x < h x"
  shows "sum_list (map g xs) < sum_list (map h xs)"
  using assms
proof (induction xs)
  case Nil
  then show ?case by simp
next
  case (Cons x xs)
  have le: "sum_list (map g xs) \<le> sum_list (map h xs)"
    using Cons.prems(1) by (intro sum_list_mono) simp
  show ?case
  proof (cases "g x < h x")
    case True
    then show ?thesis using le by simp
  next
    case False
    then have "\<exists>x\<in>set xs. g x < h x" using Cons.prems(2) by auto
    then have "sum_list (map g xs) < sum_list (map h xs)"
      using Cons.IH Cons.prems(1) by simp
    then show ?thesis using Cons.prems(1) by (simp add: add_le_less_mono)
  qed
qed

lemma delivered_length:
  "int (length (delivered run_job r futures)) =
   sum_list (map (\<lambda>future. int (length (delivered run_job r [future]))) futures)"
  by (induction futures) (simp_all add: delivered_def)

lemma delivered_as_completed_length:
  "int (length (delivered run_job r (as_completed env r futures))) =
   sum_list (map (\<lambda>future. int (length (delivered run_job r [future]))) futures)"
proof -
  have "int (length (delivered run_job r (as_completed env r futures))) =
        sum_list (map (\<lambda>future. int (length (delivered run_job r [future]))) (as_completed env r futures))"
    by (rule delivered_length)
  also have "\<dots> = sum_list (map (\<lambda>future. int (length (delivered run_job r [future]))) futures)"
    by (simp add: as_completed_def sum_list_sort_key)
  finally show ?thesis .
qed

lemma overshoot_round:
  assumes B: "B \<ge> 1" and W: "W \<ge> 1"
    and arr: "all_incidents st = JArray xs" and less: "int (length xs) < T"
    and covers: "(T - int (length xs) + B - 1) div B \<le> W"
    and quiet: "\<forall>k. \<not> interrupt env r k"
    and d: "dispatch_round B W T (int (length xs)) = Inr futures"
    and atleast: "\<forall>future\<in>set futures. \<exists>batch. run_job r (fst future) (snd future) = Inr batch \<and>
                    fst future \<le> int (length batch)"
    and more: "\<exists>future\<in>set futures. \<exists>batch. run_job r (fst future) (snd future) = Inr batch \<and>
                    fst future < int (length batch)"
  shows "\<exists>st' zs. generation_loop env run_job B W T r st = Some (Completed st') \<and>
           all_incidents st' = JArray zs \<and> T < int (length zs)"
proof -
  let ?L = "int (length xs)"
  let ?st0 = "st\<lparr>submitted := submitted st @ [futures]\<rparr>"
  let ?done = "as_completed env r futures"
  let ?st1 = "fst (collect env run_job r 0 ?st0 ?done)"
  let ?ys = "delivered run_job r ?done"
  let ?len = "\<lambda>future. int (length (delivered run_job r [future]))"
  have noint: "snd (collect env run_job r 0 ?st0 ?done) = False"
    using quiet by (rule collect_not_interrupted)
  have step: "generation_loop env run_job B W T r st = generation_loop env run_job B W T (Suc r) ?st1"
    using arr less d noint by (subst generation_loop.simps) (simp add: case_prod_unfold)
  have arr0: "all_incidents ?st0 = JArray xs" using arr by simp
  have all1: "all_incidents ?st1 = JArray (xs @ ?ys)"
    using quiet arr0 by (rule collect_array)
  have "min W ((T - ?L + B - 1) div B) = (T - ?L + B - 1) div B" using covers by simp
  then have "sum_list (map fst futures) = min (T - ?L) (((T - ?L + B - 1) div B) * B)"
    using round_requested [OF B W less d] by simp
  then have req: "sum_list (map fst futures) = T - ?L"
    using ceil_covers [OF B, of "T - ?L"] by simp
  have "\<forall>future\<in>set futures. fst future \<le> ?len future"
    using atleast by (auto simp: delivered_def)
  moreover have "\<exists>future\<in>set futures. fst future < ?len future"
  proof -
    from more obtain future batch where f: "future \<in> set futures"
      and b: "run_job r (fst future) (snd future) = Inr batch" "fst future < int (length batch)"
      by blast
    from b have "fst future < ?len future" by (simp add: delivered_def)
    with f show ?thesis by blast
  qed
  ultimately have "sum_list (map fst futures) < sum_list (map ?len futures)"
    by (rule sum_list_strict)
  then have "T - ?L < int (length ?ys)"
    using req by (simp only: delivered_as_completed_length)
  then have over: "T < int (length (xs @ ?ys))" by simp
  have len1: "py_len (all_incidents ?st1) = Inr (int (length (xs @ ?ys)))" using all1 by simp
  have "T \<le> int (length (xs @ ?ys))" using over by simp
  with len1 have "generation_loop env run_job B W T (Suc r) ?st1 = Some (Completed ?st1)"
    by (rule loop_done)
  then show ?thesis using step all1 over by auto
qed

text \<open>
  Claim C10, as amended. With batch size and worker count at least 1: the loop returns at
  once in a state whose collection has reached the target; whenever it completes, the
  final collection has at least \<open>T\<close> elements; a batch that a job returns is appended
  whole; and the final collection has more than \<open>T\<close> records when, in a round whose jobs
  request the whole remainder, every job returns at least its requested count and one
  returns more. Records in excess in an earlier round only make the next remainder
  smaller.
\<close>

theorem loop_exit_lengths:
  assumes B: "B \<ge> 1" and W: "W \<ge> 1"
  shows "(\<forall>L. py_len (all_incidents st) = Inr L \<and> T \<le> L \<longrightarrow>
            generation_loop env run_job B W T r st = Some (Completed st)) \<and>
         (\<forall>st'. generation_loop env run_job B W T r st = Some (Completed st') \<longrightarrow>
            (\<exists>L'. py_len (all_incidents st') = Inr L' \<and> T \<le> L')) \<and>
         (\<forall>xs future batch k. all_incidents st = JArray xs \<and>
              run_job r (fst future) (snd future) = Inr batch \<longrightarrow>
            all_incidents (collect_result env run_job r k st future) = JArray (xs @ batch)) \<and>
         (\<forall>xs futures. all_incidents st = JArray xs \<and> int (length xs) < T \<and>
              (T - int (length xs) + B - 1) div B \<le> W \<and>
              (\<forall>k. \<not> interrupt env r k) \<and>
              dispatch_round B W T (int (length xs)) = Inr futures \<and>
              (\<forall>future\<in>set futures. \<exists>batch. run_job r (fst future) (snd future) = Inr batch \<and>
                    fst future \<le> int (length batch)) \<and>
              (\<exists>future\<in>set futures. \<exists>batch. run_job r (fst future) (snd future) = Inr batch \<and>
                    fst future < int (length batch)) \<longrightarrow>
            (\<exists>st' zs. generation_loop env run_job B W T r st = Some (Completed st') \<and>
               all_incidents st' = JArray zs \<and> T < int (length zs)))"
proof (intro conjI allI impI)
  fix L assume "py_len (all_incidents st) = Inr L \<and> T \<le> L"
  then show "generation_loop env run_job B W T r st = Some (Completed st)"
    by (simp add: loop_done)
next
  fix st' assume "generation_loop env run_job B W T r st = Some (Completed st')"
  from completed_reaches_target [OF this]
  show "\<exists>L'. py_len (all_incidents st') = Inr L' \<and> T \<le> L'" by simp
next
  fix xs future batch k
  assume "all_incidents st = JArray xs \<and> run_job r (fst future) (snd future) = Inr batch"
  then show "all_incidents (collect_result env run_job r k st future) = JArray (xs @ batch)"
    by (simp add: collect_result_def)
next
  fix xs futures
  assume h: "all_incidents st = JArray xs \<and> int (length xs) < T \<and>
              (T - int (length xs) + B - 1) div B \<le> W \<and>
              (\<forall>k. \<not> interrupt env r k) \<and>
              dispatch_round B W T (int (length xs)) = Inr futures \<and>
              (\<forall>future\<in>set futures. \<exists>batch. run_job r (fst future) (snd future) = Inr batch \<and>
                    fst future \<le> int (length batch)) \<and>
              (\<exists>future\<in>set futures. \<exists>batch. run_job r (fst future) (snd future) = Inr batch \<and>
                    fst future < int (length batch))"
  show "\<exists>st' zs. generation_loop env run_job B W T r st = Some (Completed st') \<and>
               all_incidents st' = JArray zs \<and> T < int (length zs)"
    using h by (intro overshoot_round [OF B W, where xs = xs and futures = futures]) blast+
qed

lemma dispatch_4_3_10_0: "dispatch_round 4 3 10 0 = Inr [(4, 0), (4, 4), (2, 8)]"
  by (simp add: dispatch_round_def upto.simps)

theorem loop_exit_lengths_witness:
  "\<exists>st' zs. generation_loop calm_world generous_batches 4 3 10 0 start_state = Some (Completed st') \<and>
     all_incidents st' = JArray zs \<and> 10 < int (length zs)"
proof -
  have B: "(1::int) \<le> 4" and W: "(1::int) \<le> 3" by simp_all
  note overshoot = loop_exit_lengths [OF B W, of start_state 10 calm_world generous_batches 0,
      THEN conjunct2, THEN conjunct2, THEN conjunct2, rule_format, of "[]" "[(4, 0), (4, 4), (2, 8)]"]
  show ?thesis
    by (rule overshoot)
       (simp add: dispatch_4_3_10_0 calm_world_def generous_batches_def start_state_def)
qed

text \<open>
  The claim fails where it says that a batch with more records than requested makes the
  final collection exceed the target. Target 10, batch size 4, one worker: the job of the
  first round returns 5 records for the 4 requested, the later rounds request 4 and 1
  and get them, and the run completes with exactly 10 records.
\<close>

theorem overdelivery_counterexample:
  "generous_batches 0 4 0 = Inr (replicate 5 JNull) \<and>
   (case generation calm_world generous_batches 4 1 10 start_state of
      Some (Completed st') \<Rightarrow>
        all_incidents st' = JArray (replicate 10 JNull) \<and>
        submitted st' = [[(4, 0)], [(4, 5)], [(1, 9)]]
    | _ \<Rightarrow> False)"
  by code_simp

section \<open>Interruption and failure\<close>





end
